theory Spec2Isabelle
  imports Complex_Main "HOL-Library.Word"
begin

unbundle bit_operations_syntax

section \<open>Values, thrown errors and diagnostics\<close>

text \<open>
  Generated values are JavaScript values; a number value is modelled by its exact real value,
  a Date by its time value in milliseconds, an object by the list of its own properties in
  insertion order.
\<close>

datatype val =
    VUndefined
  | VNull
  | VBool bool
  | VNum real
  | VStr string
  | VDate int
  | VObj "(string \<times> val) list"
  | VArr "val list"

text \<open>A thrown exception is a value of the left summand of a result.\<close>

datatype error = Error string

type_synonym 'a result = "error + 'a"

text \<open>
  The numbers of the distribution sampler, where overflow decides the result: a double is
  a finite number, an infinity or NaN. A finite double is modelled by the real number it
  denotes and an arithmetic operation by its exact result, which becomes an infinity
  when it lies beyond the finite doubles: \<open>2^1024 - 2^970\<close> is the least magnitude that
  rounds to \<open>Infinity\<close>. The special values follow IEEE 754. Rounding within the finite
  range and the sign of zero are not modelled.
\<close>

datatype num = Fin real | PosInf | NegInf | NaN


















text \<open>What the code prints with \<open>console.warn\<close> and \<open>console.error\<close>.\<close>

datatype diag =
    NextIntSwap
  | ConstraintFail string int
  | DependentNoParent
  | DependentError string error
  | DistMinGtMax num num
  | NormalStdDev num
  | ExponentialLambda num
  | DateSwap int int
  | DateBusinessHours int
  | DateWeekdays int
  | DateFailed int

section \<open>The pseudorandom source (class PCG)\<close>

text \<open>
  The class keeps a 64-bit state in a BigInt and masks it with \<open>2^64 - 1\<close> in \<open>step\<close>,
  so the state is a \<open>64 word\<close>: multiplication and addition wrap as the mask makes them.
  The field \<open>inc\<close> is read-only and always holds \<open>DEFAULT_INC | 1\<close>, so it is a constant
  here. A seed and the quotient that \<open>next\<close> returns are finite numbers, modelled by
  their exact real value (the quotient of a 32-bit integer by \<open>2^32\<close> is exact in a double).
\<close>

definition MULTIPLIER :: "64 word" where
  "MULTIPLIER = 6364136223846793005"

definition DEFAULT_INC :: "64 word" where
  "DEFAULT_INC = 1442695040888963407"

definition inc :: "64 word" where
  "inc = DEFAULT_INC OR 1"

record PCG =
  state :: "64 word"

text \<open>\<open>step\<close>: \<open>state = (state * MULTIPLIER + inc) & (2^64 - 1)\<close>.\<close>

definition step :: "PCG \<Rightarrow> PCG" where
  "step g = g\<lparr>state := state g * MULTIPLIER + inc\<rparr>"

text \<open>The constructor takes a number or a BigInt.\<close>

datatype seed = SNum real | SBig int

text \<open>
  \<open>typeof seed === 'number' ? BigInt(Math.abs(Math.floor(seed)) || 1) : seed\<close>:
  \<open>x || 1\<close> is 1 exactly when \<open>x\<close> is 0.
\<close>

definition seedBig :: "seed \<Rightarrow> int" where
  "seedBig s =
     (case s of
        SNum x \<Rightarrow> (if \<bar>\<lfloor>x\<rfloor>\<bar> = 0 then 1 else \<bar>\<lfloor>x\<rfloor>\<bar>)
      | SBig b \<Rightarrow> b)"

text \<open>
  The constructor: state 0, one step, add the seed, one step. The sum
  \<open>state + seedBig\<close> is masked by the step that follows it, which is addition of
  \<open>word_of_int seedBig\<close> on words.
\<close>

definition PCG_new :: "seed \<Rightarrow> PCG" where
  "PCG_new s =
     (let g0 = \<lparr>state = 0\<rparr>;
          g1 = step g0;
          g2 = g1\<lparr>state := state g1 + word_of_int (seedBig s)\<rparr>
      in step g2)"

text \<open>
  \<open>nextUint32\<close>: the output is computed from the state before the step.
  \<open>Number(...) & 0xffffffff\<close> keeps the low 32 bits; \<open>-rot & 31\<close> is \<open>(32 - rot) mod 32\<close>;
  the final \<open>>>> 0\<close> reads the 32 bits as unsigned.
\<close>

definition nextUint32 :: "PCG \<Rightarrow> 32 word \<times> PCG" where
  "nextUint32 g =
     (let oldState = state g;
          g' = step g;
          xorShifted = (ucast (drop_bit 27 (drop_bit 18 oldState XOR oldState)) :: 32 word);
          rot = unat (drop_bit 59 oldState AND 31)
      in (drop_bit rot xorShifted OR push_bit ((32 - rot) mod 32) xorShifted, g'))"

text \<open>\<open>next\<close>: \<open>nextUint32() / 4294967296\<close>.\<close>

definition "next" :: "PCG \<Rightarrow> real \<times> PCG" where
  "next g = (let (x, g') = nextUint32 g in (real (unat x) / 4294967296, g'))"

text \<open>
  The rejection loop of \<open>nextInt\<close>: \<open>do { x = nextUint32() } while (x >= limit)\<close>.
  Nothing bounds the number of rounds, so the loop is a partial function: \<open>None\<close> is
  the loop that never leaves.
\<close>

partial_function (option) nextInt_loop :: "int \<Rightarrow> PCG \<Rightarrow> (int \<times> PCG) option" where
  "nextInt_loop limit g =
     (let (x, g') = nextUint32 g
      in if int (unat x) \<ge> limit then nextInt_loop limit g' else Some (int (unat x), g'))"

text \<open>
  \<open>nextInt(min, max)\<close>, returning the value, the advanced source and the warnings it
  printed. \<open>Math.floor(0x100000000 / range)\<close> is integer division for a positive integer
  range.
\<close>

definition nextInt :: "real \<Rightarrow> real \<Rightarrow> PCG \<Rightarrow> (int \<times> PCG \<times> diag list) option" where
  "nextInt min0 max0 g =
     (let mn0 = \<lfloor>min0\<rfloor>;
          mx0 = \<lfloor>max0\<rfloor>;
          (mn, mx, w) = (if mn0 > mx0 then (mx0, mn0, [NextIntSwap]) else (mn0, mx0, []))
      in if mn = mx then Some (mn, g, w)
         else
           let range = mx - mn + 1
           in if range \<le> 0x100000
              then (let (x, g') = nextUint32 g in Some (mn + int (unat x) mod range, g', w))
              else
                let limit = (0x100000000 div range) * range
                in (case nextInt_loop limit g of
                      None \<Rightarrow> None
                    | Some (x, g') \<Rightarrow> Some (mn + x mod range, g', w)))"

text \<open>The first \<open>n\<close> outputs of a source.\<close>

fun outputs :: "nat \<Rightarrow> PCG \<Rightarrow> 32 word list" where
  "outputs 0 g = []"
| "outputs (Suc n) g = (let (x, g') = nextUint32 g in x # outputs n g')"

section \<open>The distribution sampler (generateDistributedValue)\<close>





section \<open>Store, environment and generation context\<close>

text \<open>
  The source objects and the cache Maps are shared by reference between the contexts of
  one run, so they live in a store and a context holds their addresses (positions in the
  lists). The console output is part of the store.
\<close>

record store =
  rngs :: "PCG list"
  caches :: "(string \<rightharpoonup> val) list"
  console :: "diag list"

definition alloc_PCG :: "PCG \<Rightarrow> store \<Rightarrow> nat \<times> store" where
  "alloc_PCG g st = (length (rngs st), st\<lparr>rngs := rngs st @ [g]\<rparr>)"

definition alloc_Map :: "store \<Rightarrow> nat \<times> store" where
  "alloc_Map st = (length (caches st), st\<lparr>caches := caches st @ [Map.empty]\<rparr>)"

definition warn :: "diag \<Rightarrow> store \<Rightarrow> store" where
  "warn d st = st\<lparr>console := console st @ [d]\<rparr>"

text \<open>
  What the code reads from its host: the clock (\<open>Date.now()\<close>, \<open>new Date()\<close>), the value
  of \<open>Math.random()\<close>, the host's parser of date strings and its local time zone (the
  offset of local time from UTC at a time value, in milliseconds).
\<close>

record env =
  now :: int
  random :: real
  parseDate :: "string \<Rightarrow> int option"
  tzOffset :: "int \<Rightarrow> int"

text \<open>
  \<open>GeneratorContext\<close> as \<open>generate\<close> builds it: \<open>rng\<close>, \<open>cache\<close>, \<open>locale\<close>, \<open>seed\<close>,
  \<open>options\<close> and \<open>path\<close> are always set there. The argument of \<open>generate\<close> is a partial
  context: \<open>None\<close> is an absent key. (Keys outside the declared ones, and keys present
  with the value \<open>undefined\<close>, are not modelled.)
\<close>

record GeneratorContext =
  index :: "int option"
  key :: "string option"
  parent :: "val option"
  rng :: nat
  path :: string
  locale_name :: string
  cache :: nat
  seed :: real
  options :: "string \<rightharpoonup> val"

record ContextOptions =
  opt_index :: "int option"
  opt_key :: "string option"
  opt_parent :: "val option"
  opt_rng :: "nat option"
  opt_path :: "string option"
  opt_locale :: "string option"
  opt_cache :: "nat option"
  opt_seed :: "real option"

text \<open>\<open>context.rng.next()\<close>: draws from the source the context points to.\<close>

definition rng_next :: "GeneratorContext \<Rightarrow> store \<Rightarrow> real \<times> store" where
  "rng_next context st =
     (let (u, g') = next (rngs st ! rng context)
      in (u, st\<lparr>rngs := (rngs st)[rng context := g']\<rparr>))"

section \<open>The schema engine (class SchemaImpl)\<close>

text \<open>
  A constraint is a predicate with a retry count. A predicate is user code: it returns a
  boolean or throws. Retry counts are integers here.
\<close>

record constraint =
  predicate :: "val \<Rightarrow> bool result"
  retries :: int

text \<open>
  A generator function reads the context and the host, draws from the shared source and
  may print or throw: it maps a store to a result and a store.
\<close>

record SchemaImpl =
  generatorFn :: "env \<Rightarrow> GeneratorContext \<Rightarrow> store \<Rightarrow> val result \<times> store"
  constraints :: "constraint list"
  currentOptions :: "string \<rightharpoonup> val"

text \<open>
  The constructor. \<open>JSON.parse(JSON.stringify(initialOptions))\<close> is the identity on an
  option bag of plain data, which is what the bags here are.
\<close>

definition SchemaImpl_new ::
  "(env \<Rightarrow> GeneratorContext \<Rightarrow> store \<Rightarrow> val result \<times> store) \<Rightarrow> (string \<rightharpoonup> val) \<Rightarrow> SchemaImpl" where
  "SchemaImpl_new generator initialOptions =
     \<lparr>generatorFn = generator, constraints = [], currentOptions = initialOptions\<rparr>"

text \<open>\<open>contextOptions.seed ?? Date.now() + Math.floor(Math.random() * 10000)\<close>.\<close>

definition resolve_seed :: "real option \<Rightarrow> env \<Rightarrow> real" where
  "resolve_seed seed_option e =
     (case seed_option of
        Some k \<Rightarrow> k
      | None \<Rightarrow> real_of_int (now e) + real_of_int \<lfloor>random e * 10000\<rfloor>)"

text \<open>
  The first lines of \<open>generate\<close>: a new source is constructed on every call, a new cache
  only when none was passed, and the keys of \<open>contextOptions\<close> (the source and the cache
  among them, when a composite passes its own) override the defaults. In
  \<open>contextOptions['path'] || contextOptions['key'] || ''\<close> the empty string counts as
  absent.
\<close>

definition fullContext :: "SchemaImpl \<Rightarrow> ContextOptions \<Rightarrow> env \<Rightarrow> store \<Rightarrow> GeneratorContext \<times> store" where
  "fullContext S contextOptions e st =
     (let seed0 = resolve_seed (opt_seed contextOptions) e;
          (rng0, st1) = alloc_PCG (PCG_new (SNum seed0)) st;
          (cache0, st2) = (case opt_cache contextOptions of
                             Some a \<Rightarrow> (a, st1)
                           | None \<Rightarrow> alloc_Map st1);
          key_or_empty = (case opt_key contextOptions of
                            Some k \<Rightarrow> k
                          | None \<Rightarrow> [])
      in (\<lparr>index = opt_index contextOptions,
           key = opt_key contextOptions,
           parent = opt_parent contextOptions,
           rng = (case opt_rng contextOptions of Some a \<Rightarrow> a | None \<Rightarrow> rng0),
           path = (case opt_path contextOptions of
                     Some p \<Rightarrow> if p \<noteq> [] then p else key_or_empty
                   | None \<Rightarrow> key_or_empty),
           locale_name = (case opt_locale contextOptions of Some l \<Rightarrow> l | None \<Rightarrow> ''en-US''),
           cache = cache0,
           seed = seed0,
           options = currentOptions S\<rparr>, st2))"

text \<open>
  The constraint check of one attempt: the \<open>for\<close> loop over the constraints that breaks
  at the first predicate returning false. A predicate that throws ends the check (and the
  call) with its exception.
\<close>

fun satisfied :: "constraint list \<Rightarrow> val \<Rightarrow> bool result" where
  "satisfied [] v = Inr True"
| "satisfied (c # cs) v =
     (case predicate c v of
        Inl err \<Rightarrow> Inl err
      | Inr b \<Rightarrow> if \<not> b then Inr False else satisfied cs v)"

text \<open>\<open>(this.constraints[0]?.retries ?? 10) + 1\<close>.\<close>

definition maxTotalAttempts :: "SchemaImpl \<Rightarrow> int" where
  "maxTotalAttempts S =
     (case constraints S of
        [] \<Rightarrow> 10
      | c # _ \<Rightarrow> retries c) + 1"

text \<open>
  The \<open>do ... while\<close> loop of \<open>generate\<close>; \<open>attempts\<close> is the local counter before the
  round. The last branch is the \<open>return result\<close> after the loop, which the test inside
  the loop makes unreachable.
\<close>

function generate_loop ::
  "SchemaImpl \<Rightarrow> env \<Rightarrow> GeneratorContext \<Rightarrow> int \<Rightarrow> int \<Rightarrow> store \<Rightarrow> val result \<times> store" where
  "generate_loop S e context maxTotal attempts st =
     (let attempts' = attempts + 1
      in case generatorFn S e context st of
           (Inl err, st') \<Rightarrow> (Inl err, st')
         | (Inr v, st') \<Rightarrow>
             (case satisfied (constraints S) v of
                Inl err \<Rightarrow> (Inl err, st')
              | Inr True \<Rightarrow> (Inr v, st')
              | Inr False \<Rightarrow>
                  if attempts' \<ge> maxTotal
                  then (Inr v, warn (ConstraintFail (path context) attempts') st')
                  else if attempts' < maxTotal
                  then generate_loop S e context maxTotal attempts' st'
                  else (Inr v, st')))"
  by pat_completeness auto
termination
  by (relation "measure (\<lambda>(S, e, context, maxTotal, attempts, st). nat (maxTotal - attempts))") auto

definition generate :: "SchemaImpl \<Rightarrow> ContextOptions \<Rightarrow> env \<Rightarrow> store \<Rightarrow> val result \<times> store" where
  "generate S contextOptions e st =
     (let (context, st0) = fullContext S contextOptions e st
      in generate_loop S e context (maxTotalAttempts S) 0 st0)"








section \<open>Combinators\<close>

text \<open>
  \<open>optional(probability = 0.5)\<close>: the new schema draws once and runs the wrapped
  generator function when the draw is below \<open>p\<close>, and yields \<open>null\<close> otherwise. The new
  schema has no constraints.
\<close>

definition optional :: "real \<Rightarrow> SchemaImpl \<Rightarrow> SchemaImpl" where
  "optional probability S =
     (let p = max 0 (min 1 probability);
          opts = (currentOptions S)(''_isOptional'' \<mapsto> VBool True, ''probability'' \<mapsto> VNum p)
      in SchemaImpl_new
           (\<lambda>e ctx st.
              let (u, st') = rng_next ctx st
              in if u < p then generatorFn S e ctx st' else (Inr VNull, st'))
           opts)"


text \<open>
  \<open>where(predicate, retries = 10)\<close>: a clone with the constraint appended, its retry
  count raised to at least 1.
\<close>

definition where_schema :: "(val \<Rightarrow> bool result) \<Rightarrow> int \<Rightarrow> SchemaImpl \<Rightarrow> SchemaImpl" where
  "where_schema p r S =
     (let newSchema = SchemaImpl_new (generatorFn S) (currentOptions S)
      in newSchema\<lparr>constraints := constraints S @ [\<lparr>predicate = p, retries = max 1 r\<rparr>]\<rparr>)"

section \<open>Schema factories\<close>


















declare generate_loop.simps [simp del]

section \<open>Notions used to state the properties\<close>



text \<open>\<open>S.where(q1, n1).where(q2, n2)...\<close>: a chain of \<open>where\<close> calls.\<close>

definition where_chain :: "SchemaImpl \<Rightarrow> ((val \<Rightarrow> bool result) \<times> int) list \<Rightarrow> SchemaImpl" where
  "where_chain S further = foldl (\<lambda>T (q, n). where_schema q n T) S further"





text \<open>
  Two calls of \<open>generate\<close> never start from the same store: the second one finds what
  the first one left. What a generator function may depend on is the part of the store
  its context points to. \<open>same_view\<close> relates two stores as seen from two pairs of
  addresses: both addresses are allocated in both stores, and the two sources and the two
  caches they denote are equal. \<open>alike\<close> relates two contexts that agree on everything
  but those addresses.
\<close>

definition same_view :: "nat \<Rightarrow> nat \<Rightarrow> store \<Rightarrow> nat \<Rightarrow> nat \<Rightarrow> store \<Rightarrow> bool" where
  "same_view r1 c1 s1 r2 c2 s2 \<longleftrightarrow>
     r1 < length (rngs s1) \<and> r2 < length (rngs s2) \<and> rngs s1 ! r1 = rngs s2 ! r2
     \<and> c1 < length (caches s1) \<and> c2 < length (caches s2) \<and> caches s1 ! c1 = caches s2 ! c2"




text \<open>
  The sum \<open>1 + MULTIPLIER + ... + MULTIPLIER^(n-1)\<close> on 64-bit words: \<open>n\<close> steps take the
  state \<open>s\<close> to \<open>MULTIPLIER^n * s + inc * geometric n\<close>.
\<close>

fun geometric :: "nat \<Rightarrow> 64 word" where
  "geometric 0 = 0"
| "geometric (Suc n) = MULTIPLIER * geometric n + 1"



text \<open>The bits 27 to \<open>k - 1\<close> of the state are zero.\<close>

definition cleared :: "nat \<Rightarrow> PCG \<Rightarrow> bool" where
  "cleared k g \<longleftrightarrow> (\<forall>j. 27 \<le> j \<and> j < k \<longrightarrow> \<not> bit (state g) j)"

section \<open>Properties of the pseudorandom source\<close>

lemma nextInt_loop_Some_limit:
  assumes "nextInt_loop limit g = Some r"
  shows "0 < limit"
  by (rule nextInt_loop.raw_induct [where P = "\<lambda>limit g r. 0 < limit", OF _ assms])
     (auto simp: Let_def not_le split: prod.splits if_splits intro: le_less_trans [OF uint_ge_0])

lemma nextInt_loop_diverges: "limit \<le> 0 \<Longrightarrow> nextInt_loop limit g = None"
  using nextInt_loop_Some_limit [of limit g] by (cases "nextInt_loop limit g") auto

lemma next_range: "0 \<le> fst (next g) \<and> fst (next g) < 1"
proof -
  obtain x g' where x: "nextUint32 g = (x, g')" by (cases "nextUint32 g")
  have "unat x < 2 ^ 32" using unsigned_less [of x] by simp
  then have "real (unat x) < real (2 ^ 32)" by (simp only: of_nat_less_iff)
  then show ?thesis by (simp add: next_def x del: of_nat_unat)
qed

lemma rng_next_range: "0 \<le> fst (rng_next ctx st) \<and> fst (rng_next ctx st) < 1"
  using next_range [of "rngs st ! rng ctx"]
  by (simp add: rng_next_def split_beta Let_def)

text \<open>
  Claim C9, as amended. The constructor turns a number seed into \<open>|floor(seed)|\<close>, with 1
  in place of 0. For every integer \<open>i\<close> the seeds \<open>i\<close> and \<open>-i\<close> construct the same source,
  and so do the seeds 0 and 1: the output sequences are identical, so distinct integer
  seeds collide.
\<close>

theorem seed_normalisation_collides:
  "PCG_new (SNum (- real_of_int i)) = PCG_new (SNum (real_of_int i))
   \<and> outputs n (PCG_new (SNum (- real_of_int i))) = outputs n (PCG_new (SNum (real_of_int i)))
   \<and> PCG_new (SNum 0) = PCG_new (SNum 1)
   \<and> outputs n (PCG_new (SNum 0)) = outputs n (PCG_new (SNum 1))"
  by (simp add: PCG_new_def seedBig_def)

text \<open>
  Claim C9 as stated speaks of every number \<open>s\<close>. It fails at \<open>s = 1.5\<close>: the floor of 1.5
  is 1 and the floor of -1.5 is -2, so the two sources start from the seeds 1 and 2 and
  their first outputs are 1412771199 and 3461116586.
\<close>

theorem seed_sign_fraction_counterexample:
  "outputs 1 (PCG_new (SNum (3 / 2))) \<noteq> outputs 1 (PCG_new (SNum (- (3 / 2))))"
  by (simp add: One_nat_def nextUint32_def PCG_new_def step_def MULTIPLIER_def inc_def
      DEFAULT_INC_def seedBig_def Let_def)

text \<open>
  Claim C6 says that \<open>nextInt\<close> returns a value in the range for all integer arguments.
  With \<open>min = 0\<close> and \<open>max = 2^32\<close> the range has \<open>2^32 + 1\<close> values, the rejection limit
  \<open>floor(2^32 / range) * range\<close> is 0, every draw is rejected and the call never returns,
  whatever the state of the source.
\<close>

theorem nextInt_wide_range_never_returns:
  "nextInt 0 4294967296 g = None"
  by (simp add: nextInt_def Let_def nextInt_loop_diverges)

section \<open>Properties of the schema engine\<close>

lemma generate_unconstrained:
  "constraints S = [] \<Longrightarrow>
   generate S co e st = (let (ctx, st0) = fullContext S co e st in generatorFn S e ctx st0)"
  by (auto simp: generate_def generate_loop.simps Let_def split: prod.splits sum.splits)

lemma constraints_optional: "constraints (optional p S) = []"
  by (simp add: optional_def SchemaImpl_new_def Let_def)

text \<open>
  Claim C1 says that \<open>optional(0)\<close> never yields null and \<open>optional(1)\<close> always does. The
  code does the opposite: the wrapped generator runs when the draw is below \<open>p\<close>. For
  every schema \<open>S\<close> and every call, \<open>S.optional(0).generate()\<close> returns null, and
  \<open>S.optional(1).generate()\<close> draws once and returns what the generator function of \<open>S\<close>
  returns.
\<close>

theorem optional_probability_is_of_presence:
  "fst (generate (optional 0 S) co e st) = Inr VNull
   \<and> generate (optional 1 S) co e st =
       (let (ctx, st0) = fullContext (optional 1 S) co e st;
            (u, st') = rng_next ctx st0
        in generatorFn S e ctx st')"
proof -
  have lo: "\<not> fst (rng_next ctx st) < 0" for ctx st
    using rng_next_range [of ctx st] by simp
  have hi: "fst (rng_next ctx st) < 1" for ctx st
    using rng_next_range [of ctx st] by simp
  have a: "fst (generate (optional 0 S) co e st) = Inr VNull"
    by (simp add: generate_unconstrained constraints_optional optional_def SchemaImpl_new_def
        Let_def split_beta lo)
  have b: "generate (optional 1 S) co e st =
      (let (ctx, st0) = fullContext (optional 1 S) co e st;
           (u, st') = rng_next ctx st0
       in generatorFn S e ctx st')"
    by (simp add: generate_unconstrained constraints_optional optional_def SchemaImpl_new_def
        Let_def split_beta hi)
  show ?thesis using a b by simp
qed

section \<open>The retry loop\<close>


lemma where_schema_simps [simp]:
  "constraints (where_schema p r S) = constraints S @ [\<lparr>predicate = p, retries = max 1 r\<rparr>]"
  "generatorFn (where_schema p r S) = generatorFn S"
  "currentOptions (where_schema p r S) = currentOptions S"
  by (simp_all add: where_schema_def SchemaImpl_new_def Let_def)

lemma where_chain_simps [simp]:
  "constraints (where_chain S further) =
     constraints S @ map (\<lambda>(q, n). \<lparr>predicate = q, retries = max 1 n\<rparr>) further"
  "generatorFn (where_chain S further) = generatorFn S"
  "currentOptions (where_chain S further) = currentOptions S"
  unfolding where_chain_def
  by (induction further arbitrary: S; simp add: split_beta)+
































section \<open>Exceptions of user callbacks\<close>













section \<open>Determinism\<close>

lemma same_view_warn [simp]:
  "same_view r1 c1 (warn d1 s1) r2 c2 s2 = same_view r1 c1 s1 r2 c2 s2"
  "same_view r1 c1 s1 r2 c2 (warn d2 s2) = same_view r1 c1 s1 r2 c2 s2"
  by (simp_all add: same_view_def warn_def)


































section \<open>generateMany\<close>















section \<open>The distribution sampler\<close>

text \<open>
  The loops that redraw a zero end: \<open>2^k\<close> steps of the congruential sequence change
  bit \<open>k\<close> of the state and leave the bits below it, and an output computed from a state
  with bit 28 set is not zero.
\<close>

lemma state_funpow_step:
  "state ((step ^^ n) g) = MULTIPLIER ^ n * state g + inc * geometric n"
  by (induction n) (simp_all add: step_def algebra_simps)

lemma geometric_add: "geometric (m + n) = MULTIPLIER ^ n * geometric m + geometric n"
  by (induction n) (simp_all add: algebra_simps)

lemma geometric_double: "geometric (2 * n) = geometric n * (MULTIPLIER ^ n + 1)"
proof -
  have "geometric (2 * n) = geometric (n + n)" by (simp add: mult_2)
  then show ?thesis by (simp add: geometric_add algebra_simps)
qed

lemma power_geometric: "MULTIPLIER ^ n = 1 + geometric n * (MULTIPLIER - 1)"
proof (induction n)
  case 0
  show ?case by simp
next
  case (Suc n)
  have "MULTIPLIER ^ Suc n = MULTIPLIER * (1 + geometric n * (MULTIPLIER - 1))"
    using Suc.IH by simp
  then show ?case by (simp add: algebra_simps)
qed

lemma MULTIPLIER_power2: "\<exists>v. MULTIPLIER ^ (2 ^ k) = 1 + 4 * v"
proof (induction k)
  case 0
  show ?case by (rule exI [of _ 1591034055961698251]) (simp add: MULTIPLIER_def)
next
  case (Suc k)
  then obtain v where v: "MULTIPLIER ^ (2 ^ k) = 1 + 4 * v" by blast
  have "MULTIPLIER ^ (2 ^ Suc k) = (MULTIPLIER ^ (2 ^ k)) ^ 2"
    by (simp add: power_mult [symmetric] mult.commute)
  also have "\<dots> = 1 + 4 * (2 * v + 4 * v * v)"
    by (simp add: v power2_eq_square algebra_simps)
  finally show ?case by blast
qed

lemma geometric_power2: "\<exists>u. odd u \<and> geometric (2 ^ k) = 2 ^ k * u"
proof (induction k)
  case 0
  show ?case by (rule exI [of _ 1]) simp
next
  case (Suc k)
  then obtain u where u: "odd u" "geometric (2 ^ k) = 2 ^ k * u" by blast
  obtain v where v: "MULTIPLIER ^ (2 ^ k) = 1 + 4 * v" using MULTIPLIER_power2 by blast
  have "geometric (2 ^ Suc k) = geometric (2 ^ k) * (MULTIPLIER ^ (2 ^ k) + 1)"
    using geometric_double [of "2 ^ k"] by simp
  also have "\<dots> = 2 ^ Suc k * (u * (1 + 2 * v))"
    by (simp add: u v algebra_simps)
  finally have "geometric (2 ^ Suc k) = 2 ^ Suc k * (u * (1 + 2 * v))" .
  moreover have "odd (u * (1 + 2 * v))" using u(1) by simp
  ultimately show ?case by blast
qed

lemma odd_inc: "odd inc"
  by (simp add: inc_def DEFAULT_INC_def)

lemma even_MULTIPLIER_minus_1: "even (MULTIPLIER - 1)"
  by (simp add: MULTIPLIER_def)

lemma state_after_power2:
  "\<exists>w. odd w \<and> state ((step ^^ (2 ^ k)) g) = state g + 2 ^ k * w"
proof -
  obtain u where u: "odd u" "geometric (2 ^ k) = 2 ^ k * u" using geometric_power2 by blast
  let ?n = "2 ^ k :: nat"
  have "state ((step ^^ ?n) g) = state g + (MULTIPLIER ^ ?n - 1) * state g + inc * geometric ?n"
    by (simp add: state_funpow_step algebra_simps)
  also have "\<dots> = state g + 2 ^ k * (u * ((MULTIPLIER - 1) * state g + inc))"
    by (simp add: power_geometric [of "2 ^ k"] u algebra_simps)
  finally have "state ((step ^^ ?n) g) = state g + 2 ^ k * (u * ((MULTIPLIER - 1) * state g + inc))" .
  moreover have "odd (u * ((MULTIPLIER - 1) * state g + inc))"
    using u(1) odd_inc even_MULTIPLIER_minus_1 by simp
  ultimately show ?thesis by blast
qed

lemma odd_unat_iff: "odd (unat (w :: 64 word)) \<longleftrightarrow> odd w"
proof -
  have "odd (unat w) \<longleftrightarrow> bit (unat w) 0" by (simp add: bit_0)
  also have "\<dots> \<longleftrightarrow> bit w 0" by (simp add: bit_unsigned_iff)
  also have "\<dots> \<longleftrightarrow> odd w" by (simp add: bit_0)
  finally show ?thesis .
qed

lemma bit_flip_nat:
  assumes "odd (b :: nat)"
  shows "bit (a + 2 ^ k * b) k \<longleftrightarrow> \<not> bit a k"
proof -
  have d: "(a + 2 ^ k * b) div 2 ^ k = a div 2 ^ k + b" by simp
  have "bit (a + 2 ^ k * b) k \<longleftrightarrow> odd ((a + 2 ^ k * b) div 2 ^ k)"
    by (rule bit_iff_odd)
  also have "\<dots> \<longleftrightarrow> \<not> odd (a div 2 ^ k)"
    unfolding d using assms by simp
  also have "\<dots> \<longleftrightarrow> \<not> bit a k"
    by (simp only: bit_iff_odd)
  finally show ?thesis .
qed

lemma bit_below_nat:
  assumes "j < k"
  shows "bit (a + 2 ^ k * (b :: nat)) j \<longleftrightarrow> bit a j"
proof -
  have "take_bit k (a + 2 ^ k * b) = take_bit k a"
    by (simp add: take_bit_eq_mod)
  then have "bit (take_bit k (a + 2 ^ k * b)) j \<longleftrightarrow> bit (take_bit k a) j" by simp
  then show ?thesis using assms by (simp add: bit_take_bit_iff)
qed

lemma unat_add_power_mult:
  "unat ((s :: 64 word) + 2 ^ k * w) = take_bit 64 (unat s + 2 ^ k * unat w)"
proof -
  have p: "2 ^ k * w = push_bit k w" by (simp add: push_bit_eq_mult)
  have "unat (push_bit k w) = take_bit 64 (push_bit k (unat w))"
    by (simp add: unsigned_push_bit_eq)
  then have u: "unat (2 ^ k * w) = (2 ^ k * unat w) mod 2 ^ 64"
    by (simp only: p take_bit_eq_mod push_bit_eq_mult mult.commute)
  have "unat (s + 2 ^ k * w) = (unat s + unat (2 ^ k * w)) mod 2 ^ 64"
    by (simp add: unat_word_ariths)
  also have "\<dots> = (unat s + 2 ^ k * unat w) mod 2 ^ 64"
    by (simp only: u mod_add_right_eq)
  finally show ?thesis by (simp only: take_bit_eq_mod)
qed

lemma bit_flip:
  assumes "odd (w :: 64 word)" and "k < 64"
  shows "bit (s + 2 ^ k * w) k \<longleftrightarrow> \<not> bit s k"
proof -
  have o: "odd (unat w)" using assms(1) by (simp add: odd_unat_iff)
  have "bit (unat (s + 2 ^ k * w)) k \<longleftrightarrow> \<not> bit (unat s) k"
    using bit_flip_nat [OF o, of "unat s" k] assms(2)
    by (simp add: unat_add_power_mult bit_take_bit_iff)
  then show ?thesis by (simp add: bit_unsigned_iff)
qed

lemma bit_below:
  assumes "j < k"
  shows "bit ((s :: 64 word) + 2 ^ k * w) j \<longleftrightarrow> bit s j"
proof (cases "j < 64")
  case True
  have "bit (unat (s + 2 ^ k * w)) j \<longleftrightarrow> bit (unat s) j"
    using bit_below_nat [OF assms, of "unat s" "unat w"] True
    by (simp add: unat_add_power_mult bit_take_bit_iff)
  then show ?thesis by (simp add: bit_unsigned_iff)
next
  case False
  then show ?thesis
    using bit_imp_le_length [of "s + 2 ^ k * w" j] bit_imp_le_length [of s j] by auto
qed
































section \<open>The range of nextInt\<close>

text \<open>
  From every state the sequence reaches a state whose bits 27 to 63 are zero, and the
  output there is 0. So the rejection loop ends whenever its limit is positive: \<open>nextInt\<close>
  returns exactly when the two floors are less than \<open>2^32\<close> apart, and what it returns
  lies between them.
\<close>

lemma reach_cleared: "k \<le> 64 \<Longrightarrow> \<exists>n. cleared k ((step ^^ n) g)"
proof (induction k)
  case 0
  show ?case by (rule exI [of _ 0]) (simp add: cleared_def)
next
  case (Suc k)
  then obtain n where n: "cleared k ((step ^^ n) g)" by auto
  let ?h = "(step ^^ n) g"
  show ?case
  proof (cases "bit (state ?h) k")
    case False
    have "cleared (Suc k) ?h"
      unfolding cleared_def
    proof (intro allI impI)
      fix j assume "27 \<le> j \<and> j < Suc k"
      then show "\<not> bit (state ?h) j"
        using n False by (cases "j = k") (auto simp: cleared_def)
    qed
    then show ?thesis by blast
  next
    case True
    obtain w where w: "odd w" "state ((step ^^ (2 ^ k)) ?h) = state ?h + 2 ^ k * w"
      using state_after_power2 [of k ?h] by blast
    have k64: "k < 64" using Suc.prems by simp
    have "cleared (Suc k) ((step ^^ (2 ^ k)) ?h)"
      unfolding cleared_def
    proof (intro allI impI)
      fix j assume j: "27 \<le> j \<and> j < Suc k"
      show "\<not> bit (state ((step ^^ (2 ^ k)) ?h)) j"
      proof (cases "j = k")
        case True
        then show ?thesis
          using bit_flip [OF w(1) k64, of "state ?h"] \<open>bit (state ?h) k\<close> by (simp only: w(2)) simp
      next
        case False
        then have "j < k" using j by simp
        then show ?thesis
          using bit_below [of j k "state ?h" w] n j by (simp only: w(2)) (simp add: cleared_def)
      qed
    qed
    then have "cleared (Suc k) ((step ^^ (2 ^ k + n)) g)" by (simp add: funpow_add)
    then show ?thesis by blast
  qed
qed

lemma cleared_output_zero:
  assumes "cleared 64 g"
  shows "fst (nextUint32 g) = 0"
proof -
  let ?s = "state g"
  have z: "\<not> bit ?s j" if "27 \<le> j" for j
  proof (cases "j < 64")
    case True
    then show ?thesis using assms that by (simp add: cleared_def)
  next
    case False
    then show ?thesis using bit_imp_le_length [of ?s j] by auto
  qed
  have "(ucast (drop_bit 27 (drop_bit 18 ?s XOR ?s)) :: 32 word) = 0"
    by (rule bit_eqI) (simp add: bit_simps z)
  then show ?thesis by (simp add: nextUint32_def Let_def)
qed

lemma some_output_zero: "\<exists>n. fst (nextUint32 ((step ^^ n) g)) = 0"
  using reach_cleared [of 64 g] cleared_output_zero by blast

lemma snd_nextUint32: "snd (nextUint32 g) = step g"
  by (simp add: nextUint32_def Let_def)

lemma nextInt_loop_returns:
  "int (unat (fst (nextUint32 ((step ^^ n) g)))) < limit \<Longrightarrow>
   \<exists>x g'. nextInt_loop limit g = Some (x, g') \<and> 0 \<le> x \<and> x < limit"
proof (induction n arbitrary: g)
  case 0
  then have "nextInt_loop limit g = Some (int (unat (fst (nextUint32 g))), snd (nextUint32 g))"
    by (subst nextInt_loop.simps) (simp add: split_beta del: of_nat_unat)
  then show ?case using 0 by (auto simp del: of_nat_unat)
next
  case (Suc n)
  show ?case
  proof (cases "int (unat (fst (nextUint32 g))) < limit")
    case True
    then have "nextInt_loop limit g = Some (int (unat (fst (nextUint32 g))), snd (nextUint32 g))"
      by (subst nextInt_loop.simps) (simp add: split_beta del: of_nat_unat)
    then show ?thesis using True by (auto simp del: of_nat_unat)
  next
    case False
    have "int (unat (fst (nextUint32 ((step ^^ n) (step g))))) < limit"
      using Suc.prems by (simp add: funpow_swap1 del: of_nat_unat)
    then obtain x g' where "nextInt_loop limit (step g) = Some (x, g')" "0 \<le> x" "x < limit"
      using Suc.IH by blast
    moreover have "nextInt_loop limit g = nextInt_loop limit (step g)"
      using False
      by (subst nextInt_loop.simps) (simp add: split_beta snd_nextUint32 del: of_nat_unat)
    ultimately show ?thesis by auto
  qed
qed

lemma nextInt_loop_total:
  assumes "0 < limit"
  shows "\<exists>x g'. nextInt_loop limit g = Some (x, g') \<and> 0 \<le> x \<and> x < limit"
proof -
  obtain n where "fst (nextUint32 ((step ^^ n) g)) = 0" using some_output_zero by blast
  then have "int (unat (fst (nextUint32 ((step ^^ n) g)))) < limit" using assms by simp
  then show ?thesis by (rule nextInt_loop_returns)
qed

lemma nextInt_returns_iff:
  "nextInt mn mx g = None \<longleftrightarrow> 4294967296 \<le> \<bar>\<lfloor>mx\<rfloor> - \<lfloor>mn\<rfloor>\<bar>"
proof -
  have big: "nextInt_loop ((4294967296 div r) * r) g = None" if "4294967296 < r" for r :: int
    using that by (simp add: nextInt_loop_diverges)
  have mid: "nextInt_loop ((4294967296 div r) * r) g \<noteq> None"
    if "0 < r" "r \<le> 4294967296" for r :: int
  proof -
    have "0 < 4294967296 div r" using that pos_imp_zdiv_pos_iff [of r 4294967296] by simp
    then have "0 < (4294967296 div r) * r" using that(1) by simp
    then show ?thesis using nextInt_loop_total [of "(4294967296 div r) * r" g] by auto
  qed
  show ?thesis
  proof (cases "\<lfloor>mn\<rfloor> > \<lfloor>mx\<rfloor>")
    case True
    let ?r = "\<lfloor>mn\<rfloor> - \<lfloor>mx\<rfloor> + 1"
    show ?thesis
    proof (cases "4294967296 < ?r")
      case b: True
      then show ?thesis using True big [OF b]
        by (simp add: nextInt_def Let_def split_beta)
    next
      case False
      then have "0 < ?r" "?r \<le> 4294967296" using True by linarith+
      from mid [OF this] show ?thesis using True False
        by (auto simp: nextInt_def Let_def split_beta split: option.splits)
    qed
  next
    case nt: False
    let ?r = "\<lfloor>mx\<rfloor> - \<lfloor>mn\<rfloor> + 1"
    show ?thesis
    proof (cases "4294967296 < ?r")
      case b: True
      then show ?thesis using nt big [OF b]
        by (simp add: nextInt_def Let_def split_beta)
    next
      case False
      then have "0 < ?r" "?r \<le> 4294967296" using nt by linarith+
      from mid [OF this] show ?thesis using nt False
        by (auto simp: nextInt_def Let_def split_beta split: option.splits)
    qed
  qed
qed

lemma nextInt_in_range:
  assumes "nextInt mn mx g = Some (v, g', w)"
  shows "min \<lfloor>mn\<rfloor> \<lfloor>mx\<rfloor> \<le> v \<and> v \<le> max \<lfloor>mn\<rfloor> \<lfloor>mx\<rfloor>"
proof -
  define lo where "lo = min \<lfloor>mn\<rfloor> \<lfloor>mx\<rfloor>"
  define hi where "hi = max \<lfloor>mn\<rfloor> \<lfloor>mx\<rfloor>"
  have sw: "(if \<lfloor>mn\<rfloor> > \<lfloor>mx\<rfloor> then (\<lfloor>mx\<rfloor>, \<lfloor>mn\<rfloor>, [NextIntSwap]) else (\<lfloor>mn\<rfloor>, \<lfloor>mx\<rfloor>, [])) =
            (lo, hi, if \<lfloor>mn\<rfloor> > \<lfloor>mx\<rfloor> then [NextIntSwap] else [])"
    by (auto simp: lo_def hi_def)
  have le: "lo \<le> hi" by (simp add: lo_def hi_def)
  have m: "lo \<le> lo + x mod (hi - lo + 1) \<and> lo + x mod (hi - lo + 1) \<le> hi" for x :: int
  proof -
    have r: "0 < hi - lo + 1" using le by simp
    show ?thesis
      using pos_mod_sign [OF r, of x] pos_mod_bound [OF r, of x] by linarith
  qed
  have "lo \<le> v \<and> v \<le> hi"
  proof (cases "lo = hi")
    case True
    then show ?thesis using assms by (simp add: nextInt_def Let_def sw)
  next
    case False
    show ?thesis
    proof (cases "hi - lo + 1 \<le> 0x100000")
      case True
      then have "v = lo + int (unat (fst (nextUint32 g))) mod (hi - lo + 1)"
        using assms False by (auto simp: nextInt_def Let_def sw split_beta simp del: of_nat_unat)
      then show ?thesis using m by (simp del: of_nat_unat)
    next
      case big: False
      then obtain x where "v = lo + x mod (hi - lo + 1)"
        using assms False
        by (auto simp: nextInt_def Let_def sw split_beta split: option.splits)
      then show ?thesis using m by simp
    qed
  qed
  then show ?thesis by (simp add: lo_def hi_def)
qed

end
